theory Spec2Isabelle
  imports Complex_Main "HOL-Library.Word"
begin

section \<open>BLDC motor control (motor.cpp, shared.c): a shallow embedding\<close>

text \<open>
  The C source keeps its state in module globals and function statics. The embedding
  collects them in one record and passes it explicitly. C \<^verbatim>\<open>double\<close> values
  that stay finite are modelled as \<^typ>\<open>real\<close> (rounding is not modelled); the
  results of \<^verbatim>\<open>RPMCalculate\<close>, where a division by zero can produce a
  non-finite value, use the type \<open>double\<close> below. Fixed-width integers are words.
\<close>

subsection \<open>Shared values (shared.h, shared.c)\<close>

text \<open>
  \<^verbatim>\<open>typedef struct { double filtered; volatile double raw; } val;\<close>
  \<^verbatim>\<open>typedef struct { SemaphoreHandle_t mutex; val values; } sharedValues;\<close>
  The stored type is a parameter: the accessors only copy it.
\<close>

record 'a val =
  filtered :: 'a
  raw :: 'a

type_synonym SemaphoreHandle_t = nat

record 'a sharedValues =
  mutex :: SemaphoreHandle_t
  "values" :: "'a val"

text \<open>
  \<^verbatim>\<open>xSemaphoreTake(m, blockingTime)\<close> returns \<^verbatim>\<open>pdPASS\<close> when the mutex was
  obtained within the blocking time. Whether it was depends on the other tasks, so the
  outcome is an argument \<open>acquired\<close> of every function that takes a mutex. A
  \<^verbatim>\<open>uint8_t\<close> function that executes \<^verbatim>\<open>return -1\<close> returns 255.
\<close>

definition getter :: "bool \<Rightarrow> 'a sharedValues \<Rightarrow> 'a val \<Rightarrow> 8 word \<times> 'a val" where
  "getter acquired dataPoint buff =
     (if \<not> acquired then (- 1, buff) else (0, values dataPoint))"

definition setter :: "bool \<Rightarrow> 'a sharedValues \<Rightarrow> 'a val \<Rightarrow> 8 word \<times> 'a sharedValues" where
  "setter acquired dataPoint vals =
     (if \<not> acquired then (- 1, dataPoint) else (0, dataPoint\<lparr>values := vals\<rparr>))"

definition setterVal ::
  "bool \<Rightarrow> 'a sharedValues \<Rightarrow> 'a \<Rightarrow> bool \<Rightarrow> 8 word \<times> 'a sharedValues" where
  "setterVal acquired dataPoint v setting =
     (if \<not> acquired then (- 1, dataPoint)
      else if setting then (0, dataPoint\<lparr>values := (values dataPoint)\<lparr>filtered := v\<rparr>\<rparr>)
      else (0, dataPoint\<lparr>values := (values dataPoint)\<lparr>raw := v\<rparr>\<rparr>))"

subsection \<open>Doubles that may be non-finite\<close>

text \<open>
  IEEE 754 division of a finite value by zero does not trap: it yields an infinity, or
  NaN for \<open>0 / 0\<close>. Every comparison with NaN is false. Only the operations the
  source applies to possibly non-finite values are defined.
\<close>

datatype double = Fin real | PInf | NInf | NaN

definition fdiv :: "real \<Rightarrow> real \<Rightarrow> double" where
  "fdiv a b =
     (if b = 0 then (if a = 0 then NaN else if 0 < a then PInf else NInf)
      else Fin (a / b))"

fun fmul :: "real \<Rightarrow> double \<Rightarrow> double" where
  "fmul a (Fin b) = Fin (a * b)"
| "fmul a PInf = (if a = 0 then NaN else if 0 < a then PInf else NInf)"
| "fmul a NInf = (if a = 0 then NaN else if 0 < a then NInf else PInf)"
| "fmul a NaN = NaN"

fun d_eq :: "double \<Rightarrow> real \<Rightarrow> bool" where
  "d_eq (Fin a) c = (a = c)"
| "d_eq PInf c = False"
| "d_eq NInf c = False"
| "d_eq NaN c = False"

fun d_less :: "double \<Rightarrow> real \<Rightarrow> bool" where
  "d_less (Fin a) c = (a < c)"
| "d_less PInf c = False"
| "d_less NInf c = True"
| "d_less NaN c = False"

fun d_le :: "double \<Rightarrow> real \<Rightarrow> bool" where
  "d_le (Fin a) c = (a \<le> c)"
| "d_le PInf c = False"
| "d_le NInf c = True"
| "d_le NaN c = False"

fun isFinite :: "double \<Rightarrow> bool" where
  "isFinite (Fin a) = True"
| "isFinite PInf = False"
| "isFinite NInf = False"
| "isFinite NaN = False"

text \<open>
  Conversions from \<^verbatim>\<open>double\<close> to an integer type truncate towards zero; C leaves
  the conversion undefined when the truncated value does not fit the type. A function of
  the model that can reach undefined behaviour returns an option, \<open>None\<close> standing
  for "no defined result".
\<close>

definition c_trunc :: "real \<Rightarrow> int" where
  "c_trunc v = (if 0 \<le> v then \<lfloor>v\<rfloor> else \<lceil>v\<rceil>)"

definition double_to_int :: "real \<Rightarrow> int option" where
  "double_to_int v =
     (if - 2147483648 \<le> c_trunc v \<and> c_trunc v \<le> 2147483647 then Some (c_trunc v)
      else None)"

definition double_to_uint16 :: "real \<Rightarrow> 16 word option" where
  "double_to_uint16 v =
     (if 0 \<le> c_trunc v \<and> c_trunc v \<le> 65535 then Some (word_of_int (c_trunc v))
      else None)"

subsection \<open>Module state (motor.cpp)\<close>

text \<open>\<^verbatim>\<open>typedef struct { uint32_t ch0; uint32_t ch4; } adcSample;\<close>\<close>

record adcSample =
  ch0 :: "32 word"
  ch4 :: "32 word"

definition MAXBUFFER :: nat where
  "MAXBUFFER = 40"

definition PERIOD :: int where
  "PERIOD = 100"

definition alpha :: real where
  "alpha = 0.5"

definition Kp :: real where
  "Kp = 0.032"

definition Ki :: real where
  "Ki = 0.075"

definition Kd :: real where
  "Kd = 0.00005"

text \<open>
  The motor library (motorlib.h) is external: the model records the calls made to it,
  in order. The event queue holds references to shared values.
\<close>

datatype driver_call =
    EnableMotor
  | DisableMotor
  | StopMotor bool
  | UpdateMotor bool bool bool
  | SetDuty "16 word"

datatype shared_key = RpmData | PowerData | PwmData | MaxCurrentLimit

text \<open>
  The globals of motor.cpp, the statics of \<^verbatim>\<open>hallEffectDecode\<close>
  (\<open>flipMotorState\<close>) and \<^verbatim>\<open>PIDController\<close> (\<open>ki_error\<close>,
  \<open>prev_error\<close>), and the locals of \<^verbatim>\<open>powerTask\<close> and
  \<^verbatim>\<open>speedControllerTask\<close> that live across loop iterations.
\<close>

record motor =
  adcBuffer :: "adcSample list"
  adcHead :: "8 word"
  adcTail :: "8 word"
  filtered_ch0 :: real
  filtered_ch4 :: real
  motorState :: bool
  softSetRPM :: real
  estop :: bool
  maxCurrentLimit :: "real sharedValues"
  steps :: real
  esteps :: real
  rpmData :: "real sharedValues"
  powerData :: "real sharedValues"
  pwmData :: "real sharedValues"
  hallEffectState :: "8 word"
  hallEffect_Count :: "8 word"
  flipMotorState :: bool
  ki_error :: real
  prev_error :: real
  settlingFlag :: bool
  sum_ch0 :: real
  sum_ch4 :: real
  sample_count :: "32 word"
  lastTick :: "32 word"
  motorlib :: "driver_call list"
  eventQueue :: "shared_key list"

text \<open>The state at power-up: C initialises globals and statics to zero.\<close>

definition zeroShared :: "real sharedValues" where
  "zeroShared = \<lparr>mutex = 0, values = \<lparr>filtered = 0, raw = 0\<rparr>\<rparr>"

definition powerUp :: motor where
  "powerUp =
     \<lparr>adcBuffer = replicate 40 \<lparr>ch0 = 0, ch4 = 0\<rparr>, adcHead = 0, adcTail = 0,
      filtered_ch0 = 0, filtered_ch4 = 0, motorState = False, softSetRPM = 0,
      estop = False, maxCurrentLimit = zeroShared, steps = 0, esteps = 0,
      rpmData = zeroShared, powerData = zeroShared, pwmData = zeroShared,
      hallEffectState = 0, hallEffect_Count = 0, flipMotorState = False,
      ki_error = 0, prev_error = 0, settlingFlag = False, sum_ch0 = 0, sum_ch4 = 0,
      sample_count = 0, lastTick = 0, motorlib = [], eventQueue = []\<rparr>"

text \<open>
  \<^verbatim>\<open>setupTimers\<close>: \<^verbatim>\<open>steps = 500 / 100; esteps = 1000 / 100;\<close> (integer
  divisions, then converted to double).
\<close>

definition setupTimers :: "motor \<Rightarrow> motor" where
  "setupTimers s = s\<lparr>steps := real_of_int (500 div 100), esteps := real_of_int (1000 div 100)\<rparr>"

subsection \<open>E-stop flag\<close>

definition eStopGetter :: "bool \<Rightarrow> motor \<Rightarrow> 8 word" where
  "eStopGetter acquired s = (if acquired then of_bool (estop s) else - 1)"

definition eStopSetter :: "bool \<Rightarrow> bool \<Rightarrow> motor \<Rightarrow> 8 word \<times> motor" where
  "eStopSetter acquired setting s =
     (if acquired then (of_bool setting, s\<lparr>estop := setting\<rparr>) else (- 1, s))"

subsection \<open>Soft ramp (Timer 1A interrupt)\<close>

text \<open>
  The handler reads \<^verbatim>\<open>rpmData.values.raw\<close> into the local \<^verbatim>\<open>setRPM\<close>
  once, at entry. Under E-stop it writes 0 to the shared value and switches to
  \<open>esteps\<close>; the local keeps the value read at entry.
\<close>

definition xTimer1AHandler :: "motor \<Rightarrow> motor" where
  "xTimer1AHandler s =
     (let internalSteps = steps s;
          setRPM = raw (values (rpmData s))
      in if motorState s = False \<and> setRPM \<le> 0 then s
         else
           let s1 = s\<lparr>motorState := True\<rparr>;
               s2 = (if estop s1
                     then s1\<lparr>rpmData := (rpmData s1)\<lparr>values := (values (rpmData s1))\<lparr>raw := 0\<rparr>\<rparr>\<rparr>
                     else s1);
               internalSteps = (if estop s1 then esteps s1 else internalSteps)
           in if setRPM - internalSteps \<le> softSetRPM s2 \<and>
                 softSetRPM s2 \<le> setRPM + internalSteps
              then
                let s3 = s2\<lparr>softSetRPM := setRPM\<rparr>
                in if setRPM \<le> 0 then s3\<lparr>motorState := False\<rparr> else s3
              else if softSetRPM s2 > setRPM
                then s2\<lparr>softSetRPM := softSetRPM s2 - internalSteps\<rparr>
                else s2\<lparr>softSetRPM := softSetRPM s2 + internalSteps\<rparr>)"

subsection \<open>ADC ring buffer: producer (ADC1 sequence 0 interrupt)\<close>

text \<open>
  \<^verbatim>\<open>(adcHead + 1) % MAXBUFFER\<close> is computed in \<^verbatim>\<open>int\<close> after integer
  promotion, so it is exact; the result is stored back into a \<^verbatim>\<open>uint8_t\<close>. The
  two converted channels \<open>raw0\<close>, \<open>raw1\<close> come from the ADC. A store outside
  the array is undefined behaviour.
\<close>

definition xADC1Sequence0 :: "32 word \<Rightarrow> 32 word \<Rightarrow> motor \<Rightarrow> motor option" where
  "xADC1Sequence0 raw0 raw1 s =
     (let nextHead = (unat (adcHead s) + 1) mod MAXBUFFER;
          s1 = (if nextHead = unat (adcTail s)
                then s\<lparr>adcTail := of_nat ((unat (adcTail s) + 1) mod MAXBUFFER)\<rparr>
                else s)
      in if unat (adcHead s1) < length (adcBuffer s1)
         then Some (s1\<lparr>adcBuffer := (adcBuffer s1)[unat (adcHead s1) := \<lparr>ch0 = raw0, ch4 = raw1\<rparr>],
                       adcHead := of_nat nextHead\<rparr>)
         else None)"

subsection \<open>Commutation\<close>

definition updateMotor :: "bool \<Rightarrow> bool \<Rightarrow> bool \<Rightarrow> motor \<Rightarrow> motor" where
  "updateMotor a b c s = s\<lparr>motorlib := motorlib s @ [UpdateMotor a b c]\<rparr>"

definition hallEffectDecode :: "motor \<Rightarrow> motor" where
  "hallEffectDecode s =
     (if \<not> motorState s
      then s\<lparr>motorlib := motorlib s @ [StopMotor False, DisableMotor],
              flipMotorState := motorState s\<rparr>
      else
        let s1 = (if flipMotorState s \<noteq> motorState s
                  then s\<lparr>motorlib := motorlib s @ [EnableMotor],
                          flipMotorState := motorState s\<rparr>
                  else s)
        in if hallEffectState s1 = 0 \<or> hallEffectState s1 = 1 \<or> hallEffectState s1 = 5
           then updateMotor True False False s1
           else if hallEffectState s1 = 2 \<or> hallEffectState s1 = 3
           then updateMotor False True False s1
           else updateMotor False False True s1)"

subsection \<open>RPM estimate and PID speed controller\<close>

text \<open>
  \<^verbatim>\<open>configTICK_RATE_HZ\<close> comes from the FreeRTOS configuration, which is not
  part of the sources: it is the parameter \<open>rate\<close>. \<^verbatim>\<open>pdMS_TO_TICKS\<close> is
  the FreeRTOS macro, on \<^verbatim>\<open>TickType_t\<close> (32 bits);
  \<^verbatim>\<open>TICKS_TO_MS(ticks)\<close> is \<^verbatim>\<open>((double)ticks) / ((double)configTICK_RATE_HZ)\<close>.
\<close>

definition pdMS_TO_TICKS :: "32 word \<Rightarrow> 32 word \<Rightarrow> 32 word" where
  "pdMS_TO_TICKS rate xTimeInMs = (xTimeInMs * rate) div 1000"

definition TICKS_TO_MS :: "32 word \<Rightarrow> 32 word \<Rightarrow> double" where
  "TICKS_TO_MS rate ticks = fdiv (real (unat ticks)) (real (unat rate))"

definition RPMCalculate :: "32 word \<Rightarrow> motor \<Rightarrow> 32 word \<Rightarrow> double" where
  "RPMCalculate rate s dt =
     (let deltaScaler = fdiv (real (unat (pdMS_TO_TICKS rate 1000))) (real (unat dt))
      in fmul ((real (unat (hallEffect_Count s)) / 12) * 60) deltaScaler)"

text \<open>
  \<^verbatim>\<open>PIDController\<close> returns \<^verbatim>\<open>uint16_t\<close>, so \<^verbatim>\<open>return -1\<close> yields
  65535. The control law is reached with \<open>RPM \<ge> 100\<close> and \<open>dt > 0\<close> both
  comparisons true, or with a NaN or infinite argument, for which the computed output is
  not finite and its conversion to \<^verbatim>\<open>int\<close> is undefined. The source never
  assigns \<open>prev_error\<close> outside the two resets.
\<close>

definition PIDController :: "motor \<Rightarrow> double \<Rightarrow> double \<Rightarrow> (16 word \<times> motor) option" where
  "PIDController s RPM dt =
     (if d_eq RPM 0 \<and> d_eq dt (- 1)
        then Some (0, s\<lparr>ki_error := 0, prev_error := 0\<rparr>)
      else if softSetRPM s = 0
        then Some (0, s\<lparr>ki_error := 0, prev_error := 0\<rparr>)
      else if d_less RPM 0 \<or> d_le dt 0
        then Some (- 1, s)
      else if d_less RPM 100
        then Some (16, s)
      else
        (case (RPM, dt) of
           (Fin r, Fin d) \<Rightarrow>
             let error = softSetRPM s - r;
                 s1 = s\<lparr>ki_error := ki_error s + error * d\<rparr>
             in (case double_to_int
                        (Kp * error + Ki * ki_error s1 + Kd * ((error - prev_error s1) / d)) of
                   None \<Rightarrow> None
                 | Some output0 \<Rightarrow>
                     let output1 = (if output0 < 0 then 5 else output0);
                         output2 = (if output1 > PERIOD then PERIOD else output1)
                     in Some (word_of_int output2, s1))
         | _ \<Rightarrow> None))"

definition setDuty :: "16 word \<Rightarrow> motor \<Rightarrow> motor" where
  "setDuty duty s = s\<lparr>motorlib := motorlib s @ [SetDuty duty]\<rparr>"

text \<open>
  One iteration of the loop of \<^verbatim>\<open>speedControllerTask\<close>, from reading the tick
  count to the reset of the transition counter; \<open>currentTick\<close> is what
  \<^verbatim>\<open>xTaskGetTickCount\<close> returned. The test \<^verbatim>\<open>output >= 0\<close> is on a
  \<^verbatim>\<open>uint16_t\<close>. The publication of RPM and PWM to the shared store, which
  follows in the source, is not part of the model. The result carries the RPM and the
  output computed in this iteration.
\<close>

definition speedControllerTask_iter ::
  "32 word \<Rightarrow> 32 word \<Rightarrow> motor \<Rightarrow> (double \<times> 16 word \<times> motor) option" where
  "speedControllerTask_iter rate currentTick s =
     (let deltaTime = currentTick - lastTick s;
          s1 = s\<lparr>lastTick := currentTick\<rparr>;
          RPM = RPMCalculate rate s1 deltaTime
      in case PIDController s1 RPM (TICKS_TO_MS rate deltaTime) of
           None \<Rightarrow> None
         | Some (output, s2) \<Rightarrow>
             let s3 = (if (0 :: 16 word) \<le> output then setDuty output s2 else s2)
             in Some (RPM, output, s3\<lparr>hallEffect_Count := 0\<rparr>))"

subsection \<open>Current and power monitor\<close>

definition readCurrent :: "16 word \<Rightarrow> real" where
  "readCurrent adc_value =
     (let VREF = 3.3; R_SENSE = 0.007; GAIN = 10; ADC_MAX = 4095;
          v_sox = (real (unat adc_value) / ADC_MAX) * VREF;
          numerator = (VREF / 2) - v_sox;
          denominator = GAIN * R_SENSE
      in \<bar>numerator / denominator\<bar>)"

definition estimatePower :: "real \<Rightarrow> real \<Rightarrow> real \<Rightarrow> real" where
  "estimatePower voltage current_a current_b =
     (let power = voltage * (current_a + current_b) in 1.3 * power)"

definition xQueueSend :: "shared_key \<Rightarrow> motor \<Rightarrow> motor" where
  "xQueueSend k s =
     (if length (eventQueue s) < 16 then s\<lparr>eventQueue := eventQueue s @ [k]\<rparr> else s)"

text \<open>
  The consumer loop \<^verbatim>\<open>while (adcTail != adcHead)\<close> of \<^verbatim>\<open>powerTask\<close>. It
  need not end for arbitrary index values, and a read outside the array is undefined:
  both give \<open>None\<close>. The samples are narrowed to \<^verbatim>\<open>uint16_t\<close>.
\<close>

partial_function (option) drainLoop :: "motor \<Rightarrow> motor option" where
  "drainLoop s =
     (if adcTail s \<noteq> adcHead s
      then
        if unat (adcTail s) < length (adcBuffer s)
        then
          let c0 = (ucast (ch0 (adcBuffer s ! unat (adcTail s))) :: 16 word);
              c4 = (ucast (ch4 (adcBuffer s ! unat (adcTail s))) :: 16 word)
          in drainLoop
               (s\<lparr>adcTail := of_nat ((unat (adcTail s) + 1) mod MAXBUFFER),
                  sum_ch0 := sum_ch0 s + real (unat c0),
                  sum_ch4 := sum_ch4 s + real (unat c4),
                  sample_count := sample_count s + 1\<rparr>)
        else None
      else Some s)"

text \<open>
  The rest of one iteration of the loop of \<^verbatim>\<open>powerTask\<close>, after the samples were
  drained. Every mutex here is taken with \<^verbatim>\<open>portMAX_DELAY\<close>, which blocks until
  the mutex is obtained: the calls are modelled with \<open>acquired = True\<close>. The
  \<^verbatim>\<open>continue\<close> of the settling test ends the iteration at once: the sums and the
  sample count are kept, nothing is published.
\<close>

definition powerTask_publish :: "real \<Rightarrow> real \<Rightarrow> real \<Rightarrow> motor \<Rightarrow> motor" where
  "powerTask_publish current_a current_b raw_instantaneous_power s =
     (let s1 = s\<lparr>maxCurrentLimit :=
                  snd (setterVal True (maxCurrentLimit s) ((current_a + current_b) * 1000) True)\<rparr>;
          instantaneous_power = estimatePower 24.0 current_a current_b;
          msg = \<lparr>filtered = instantaneous_power, raw = raw_instantaneous_power\<rparr>;
          s2 = s1\<lparr>powerData := snd (setter True (powerData s1) msg)\<rparr>;
          s3 = xQueueSend PowerData s2
      in s3\<lparr>sum_ch0 := 0, sum_ch4 := 0, sample_count := 0\<rparr>)"

definition powerTask_compute :: "motor \<Rightarrow> motor option" where
  "powerTask_compute s =
     (if (0 :: 32 word) < sample_count s
      then
        let avg_ch0 = sum_ch0 s / real (unat (sample_count s));
            avg_ch4 = sum_ch4 s / real (unat (sample_count s))
        in if \<not> 0 < length (adcBuffer s) then None
           else
             let current_a_raw = readCurrent (ucast (ch0 (adcBuffer s ! 0)));
                 current_b_raw = readCurrent (ucast (ch4 (adcBuffer s ! 0)));
                 raw_instantaneous_power = estimatePower 24.0 current_a_raw current_b_raw;
                 s1 = s\<lparr>filtered_ch0 := alpha * avg_ch0 + (1 - alpha) * filtered_ch0 s,
                        filtered_ch4 := alpha * avg_ch4 + (1 - alpha) * filtered_ch4 s\<rparr>
             in case (double_to_uint16 (filtered_ch0 s1), double_to_uint16 (filtered_ch4 s1)) of
                  (Some f0, Some f4) \<Rightarrow>
                    let current_a = readCurrent f0;
                        current_b = readCurrent f4;
                        (errorFlag, maxcurrentlimit) =
                           getter True (maxCurrentLimit s1) \<lparr>filtered = 0, raw = 0\<rparr>
                    in if errorFlag = 0
                       then
                         if \<not> settlingFlag s1 \<and>
                            (current_a + current_b) * 1000 > raw maxcurrentlimit
                         then Some s1
                         else
                           let s2 = s1\<lparr>settlingFlag := True\<rparr>;
                               s3 = (if (current_a + current_b) * 1000 > raw maxcurrentlimit
                                     then snd (eStopSetter True True s2)
                                     else s2)
                           in Some (powerTask_publish current_a current_b
                                      raw_instantaneous_power s3)
                       else Some (powerTask_publish current_a current_b
                                    raw_instantaneous_power s1)
                | _ \<Rightarrow> None
      else Some s)"

definition powerTask_iter :: "motor \<Rightarrow> motor option" where
  "powerTask_iter s = (case drainLoop s of None \<Rightarrow> None | Some s1 \<Rightarrow> powerTask_compute s1)"

text \<open>
  The prologue of \<^verbatim>\<open>powerTask\<close>: its locals are initialised and the default limit
  833 is written to the raw field of \<open>maxCurrentLimit\<close>.
\<close>

definition powerTask_start :: "motor \<Rightarrow> motor" where
  "powerTask_start s =
     s\<lparr>settlingFlag := False, sum_ch0 := 0, sum_ch4 := 0, sample_count := 0,
       maxCurrentLimit := snd (setterVal True (maxCurrentLimit s) 833 False)\<rparr>"

subsection \<open>The ring buffer as a queue\<close>

text \<open>
  The unread samples are the slots from \<open>adcTail\<close> up to, not including,
  \<open>adcHead\<close>, oldest first. \<open>adc_inv\<close> says that both indices are inside the
  array of \<open>MAXBUFFER\<close> slots. \<open>pushAll\<close> runs the producer once per converted
  pair.
\<close>

definition ring :: "nat \<Rightarrow> nat \<Rightarrow> 'a list \<Rightarrow> 'a list" where
  "ring t h buf = map (\<lambda>k. buf ! ((t + k) mod MAXBUFFER)) [0..<(h + MAXBUFFER - t) mod MAXBUFFER]"

definition unread :: "motor \<Rightarrow> adcSample list" where
  "unread s = ring (unat (adcTail s)) (unat (adcHead s)) (adcBuffer s)"

definition adc_inv :: "motor \<Rightarrow> bool" where
  "adc_inv s \<longleftrightarrow>
     length (adcBuffer s) = MAXBUFFER \<and> unat (adcHead s) < MAXBUFFER \<and>
     unat (adcTail s) < MAXBUFFER"

definition sampleOf :: "32 word \<times> 32 word \<Rightarrow> adcSample" where
  "sampleOf x = \<lparr>ch0 = fst x, ch4 = snd x\<rparr>"

fun pushAll :: "(32 word \<times> 32 word) list \<Rightarrow> motor \<Rightarrow> motor option" where
  "pushAll [] s = Some s"
| "pushAll (x # xs) s =
     (case xADC1Sequence0 (fst x) (snd x) s of None \<Rightarrow> None | Some s' \<Rightarrow> pushAll xs s')"

text \<open>
  \<open>drained\<close> is the state in which the consumer loop leaves a well-formed buffer:
  every unread sample added to the sums and counted, the tail at the head.
  \<open>measuredTotal_mA\<close> is the total current, in mA, that one iteration of
  \<^verbatim>\<open>powerTask\<close> computes from the sums of such a state and compares with the
  limit (the expression \<^verbatim>\<open>(current_a + current_b) * 1000\<close> of the source).
\<close>

definition drained :: "motor \<Rightarrow> motor" where
  "drained s =
     s\<lparr>adcTail := adcHead s,
       sum_ch0 := sum_ch0 s + sum_list (map (\<lambda>x. real (unat (ucast (ch0 x) :: 16 word))) (unread s)),
       sum_ch4 := sum_ch4 s + sum_list (map (\<lambda>x. real (unat (ucast (ch4 x) :: 16 word))) (unread s)),
       sample_count := sample_count s + of_nat (length (unread s))\<rparr>"

definition measuredTotal_mA :: "motor \<Rightarrow> real option" where
  "measuredTotal_mA s =
     (case (double_to_uint16
              (alpha * (sum_ch0 s / real (unat (sample_count s))) + (1 - alpha) * filtered_ch0 s),
            double_to_uint16
              (alpha * (sum_ch4 s / real (unat (sample_count s))) + (1 - alpha) * filtered_ch4 s)) of
        (Some f0, Some f4) \<Rightarrow> Some ((readCurrent f0 + readCurrent f4) * 1000)
      | _ \<Rightarrow> None)"

subsection \<open>Reachable states of the ramp\<close>




subsection \<open>The consumer loop body, statement by statement\<close>

text \<open>
  The body of the consumer loop reads the volatile \<open>adcTail\<close> three times: for
  \<^verbatim>\<open>adcBuffer[adcTail].ch0\<close>, for \<^verbatim>\<open>adcBuffer[adcTail].ch4\<close> and for the
  update of \<open>adcTail\<close>, with interrupts enabled. \<open>consumer_iter irq\<close> is one run
  of the body in which the ADC interrupt, if \<open>irq\<close> gives its converted pair, is
  served between the two channel reads; \<open>consumer_iter None\<close> is the body not
  interrupted.
\<close>

definition consumer_iter :: "(32 word \<times> 32 word) option \<Rightarrow> motor \<Rightarrow> motor option" where
  "consumer_iter irq s =
     (if unat (adcTail s) < length (adcBuffer s)
      then
        let c0 = (ucast (ch0 (adcBuffer s ! unat (adcTail s))) :: 16 word)
        in case (case irq of None \<Rightarrow> Some s
                 | Some x \<Rightarrow> xADC1Sequence0 (fst x) (snd x) s) of
             None \<Rightarrow> None
           | Some s1 \<Rightarrow>
               if unat (adcTail s1) < length (adcBuffer s1)
               then
                 let c4 = (ucast (ch4 (adcBuffer s1 ! unat (adcTail s1))) :: 16 word)
                 in Some (s1\<lparr>adcTail := of_nat ((unat (adcTail s1) + 1) mod MAXBUFFER),
                              sum_ch0 := sum_ch0 s1 + real (unat c0),
                              sum_ch4 := sum_ch4 s1 + real (unat c4),
                              sample_count := sample_count s1 + 1\<rparr>)
               else None
      else None)"

text \<open>
  A full buffer whose slot \<open>i\<close> holds the pair \<open>(100 + i, 200 + i)\<close>: 39 unread
  samples, the tail at slot 0, the head at slot 39.
\<close>

definition ringFullMarked :: motor where
  "ringFullMarked =
     powerUp\<lparr>adcBuffer := map (\<lambda>i. \<lparr>ch0 = of_nat (100 + i), ch4 = of_nat (200 + i)\<rparr>) [0..<40],
             adcHead := 39\<rparr>"

subsection \<open>Concrete states for the examples\<close>

definition rampRunning :: motor where
  "rampRunning =
     (setupTimers powerUp)\<lparr>motorState := True, softSetRPM := 500,
        rpmData := \<lparr>mutex = 0, values = \<lparr>filtered = 0, raw = 1000\<rparr>\<rparr>\<rparr>"


definition rampEStop :: motor where
  "rampEStop = rampRunning\<lparr>estop := True\<rparr>"

definition pidAtSetpoint :: motor where
  "pidAtSetpoint = powerUp\<lparr>softSetRPM := 200\<rparr>"

definition pidFast :: motor where
  "pidFast = powerUp\<lparr>softSetRPM := 3000\<rparr>"


definition speedSameTickCounted :: motor where
  "speedSameTickCounted =
     powerUp\<lparr>softSetRPM := 500, lastTick := 7000, hallEffect_Count := 12\<rparr>"

definition hallEnabled :: motor where
  "hallEnabled = powerUp\<lparr>motorState := True, hallEffectState := 5\<rparr>"

text \<open>
  The monitor right after its prologue, with one unread sample whose two channels read 0
  (the largest current the sensor can report), and the same state once settled.
\<close>

definition monitorOverLimit :: motor where
  "monitorOverLimit = (powerTask_start powerUp)\<lparr>adcHead := 1\<rparr>"

definition monitorSettled :: motor where
  "monitorSettled = monitorOverLimit\<lparr>settlingFlag := True\<rparr>"

definition monitorSkipped :: motor where
  "monitorSkipped = monitorOverLimit\<lparr>adcTail := 1, sample_count := 1\<rparr>"

section \<open>Verified properties\<close>

subsection \<open>Shared value store\<close>

text \<open>
  C10. \<^verbatim>\<open>setterVal\<close> with \<open>setting\<close> true writes the filtered field only and
  leaves the raw field as it was; with \<open>setting\<close> false it writes the raw field only
  and leaves the filtered field as it was; in both cases it returns 0. When the mutex is
  not obtained in time it returns the error code 255 (\<^verbatim>\<open>-1\<close> as
  \<^verbatim>\<open>uint8_t\<close>) and the entry is unchanged.
\<close>

theorem setterVal_frame:
  "(acquired \<and> setting \<longrightarrow>
      fst (setterVal acquired dp v setting) = 0 \<and>
      filtered (values (snd (setterVal acquired dp v setting))) = v \<and>
      raw (values (snd (setterVal acquired dp v setting))) = raw (values dp) \<and>
      mutex (snd (setterVal acquired dp v setting)) = mutex dp) \<and>
   (acquired \<and> \<not> setting \<longrightarrow>
      fst (setterVal acquired dp v setting) = 0 \<and>
      raw (values (snd (setterVal acquired dp v setting))) = v \<and>
      filtered (values (snd (setterVal acquired dp v setting))) = filtered (values dp) \<and>
      mutex (snd (setterVal acquired dp v setting)) = mutex dp) \<and>
   (\<not> acquired \<longrightarrow>
      fst (setterVal acquired dp v setting) = 255 \<and>
      snd (setterVal acquired dp v setting) = dp)"
  by (simp add: setterVal_def)

theorem setterVal_frame_witness:
  "setterVal True \<lparr>mutex = 1, values = \<lparr>filtered = 2, raw = 3\<rparr>\<rparr> (7::int) True
     = (0, \<lparr>mutex = 1, values = \<lparr>filtered = 7, raw = 3\<rparr>\<rparr>) \<and>
   setterVal True \<lparr>mutex = 1, values = \<lparr>filtered = 2, raw = 3\<rparr>\<rparr> (7::int) False
     = (0, \<lparr>mutex = 1, values = \<lparr>filtered = 2, raw = 7\<rparr>\<rparr>) \<and>
   setterVal False \<lparr>mutex = 1, values = \<lparr>filtered = 2, raw = 3\<rparr>\<rparr> (7::int) True
     = (255, \<lparr>mutex = 1, values = \<lparr>filtered = 2, raw = 3\<rparr>\<rparr>)"
  using setterVal_frame [of True True "\<lparr>mutex = 1, values = \<lparr>filtered = 2, raw = 3\<rparr>\<rparr>" "7::int"]
    setterVal_frame [of True False "\<lparr>mutex = 1, values = \<lparr>filtered = 2, raw = 3\<rparr>\<rparr>" "7::int"]
    setterVal_frame [of False True "\<lparr>mutex = 1, values = \<lparr>filtered = 2, raw = 3\<rparr>\<rparr>" "7::int"]
  by (simp add: prod_eq_iff)

subsection \<open>Helper facts on words\<close>

lemma unsigned_real_pos: "(0 < (unsigned (w :: 'a::len word) :: real)) = (w \<noteq> 0)"
proof -
  have "(unsigned w :: real) = real (unat w)" by simp
  then show ?thesis by (simp only: of_nat_0_less_iff unat_gt_0)
qed

subsection \<open>PID speed controller\<close>

text \<open>
  C2. The special cases of \<^verbatim>\<open>PIDController\<close> are tried in the source order, each
  one only when the earlier ones did not apply: (1) \<open>RPM = 0\<close> and \<open>dt = -1\<close>
  clears the integral accumulator and the previous error and returns 0; (2) a zero
  \<open>softSetRPM\<close> does the same; (3) \<open>RPM < 0\<close> or \<open>dt \<le> 0\<close> returns the
  error sentinel (65535) and leaves the state as it was; (4) \<open>RPM < 100\<close> returns the
  start-up duty 16 and leaves the state as it was, the control law not being run.
\<close>

theorem PIDController_special_cases:
  "(d_eq RPM 0 \<and> d_eq dt (- 1) \<longrightarrow>
      PIDController s RPM dt = Some (0, s\<lparr>ki_error := 0, prev_error := 0\<rparr>)) \<and>
   (\<not> (d_eq RPM 0 \<and> d_eq dt (- 1)) \<and> softSetRPM s = 0 \<longrightarrow>
      PIDController s RPM dt = Some (0, s\<lparr>ki_error := 0, prev_error := 0\<rparr>)) \<and>
   (\<not> (d_eq RPM 0 \<and> d_eq dt (- 1)) \<and> softSetRPM s \<noteq> 0 \<and>
      (d_less RPM 0 \<or> d_le dt 0) \<longrightarrow>
      PIDController s RPM dt = Some (65535, s)) \<and>
   (\<not> (d_eq RPM 0 \<and> d_eq dt (- 1)) \<and> softSetRPM s \<noteq> 0 \<and>
      \<not> (d_less RPM 0 \<or> d_le dt 0) \<and> d_less RPM 100 \<longrightarrow>
      PIDController s RPM dt = Some (16, s))"
  by (simp add: PIDController_def)

theorem PIDController_special_cases_witness:
  "PIDController pidAtSetpoint (Fin 0) (Fin (- 1))
     = Some (0, pidAtSetpoint\<lparr>ki_error := 0, prev_error := 0\<rparr>) \<and>
   PIDController powerUp (Fin 50) (Fin 10) = Some (0, powerUp\<lparr>ki_error := 0, prev_error := 0\<rparr>) \<and>
   PIDController pidAtSetpoint (Fin (- 5)) (Fin 10) = Some (65535, pidAtSetpoint) \<and>
   PIDController pidAtSetpoint (Fin 50) (Fin 10) = Some (16, pidAtSetpoint)"
  using PIDController_special_cases [of "Fin 0" "Fin (- 1)" pidAtSetpoint]
    PIDController_special_cases [of "Fin 50" "Fin 10" powerUp]
    PIDController_special_cases [of "Fin (- 5)" "Fin 10" pidAtSetpoint]
    PIDController_special_cases [of "Fin 50" "Fin 10" pidAtSetpoint]
  by (simp add: pidAtSetpoint_def powerUp_def)

text \<open>
  C8, as the claim states it, fails: in the control-law path only a negative output is
  replaced by 5, so an output from 0 to 4 is returned as it is. With the speed at the
  setpoint (\<open>softSetRPM = RPM = 200\<close>, no accumulated error) the returned duty is 0.
\<close>

theorem PID_floor_counterexample:
  "softSetRPM pidAtSetpoint \<noteq> 0 \<and> \<not> d_less (Fin 200) 100 \<and> \<not> d_le (Fin 10) 0 \<and>
   map_option fst (PIDController pidAtSetpoint (Fin 200) (Fin 10)) = Some 0"
  by (simp add: pidAtSetpoint_def PIDController_def powerUp_def double_to_int_def
      c_trunc_def PERIOD_def Let_def)

text \<open>
  C8, amended. In the control-law path (\<open>softSetRPM \<noteq> 0\<close>, \<open>RPM \<ge> 100\<close>,
  \<open>dt > 0\<close>), whenever the conversion of the computed output to \<^verbatim>\<open>int\<close> is
  defined, the returned duty lies in the closed interval from 0 to \<open>PERIOD\<close>: a
  negative output becomes 5, an output above \<open>PERIOD\<close> becomes \<open>PERIOD\<close>, any
  other output is returned unchanged. The integral accumulator is updated.
\<close>

theorem PID_output_range:
  assumes "softSetRPM s \<noteq> 0" and "100 \<le> r" and "0 < d"
    and "double_to_int (Kp * (softSetRPM s - r) + Ki * (ki_error s + (softSetRPM s - r) * d)
            + Kd * ((softSetRPM s - r - prev_error s) / d)) = Some output"
  shows "\<exists>duty. PIDController s (Fin r) (Fin d)
             = Some (duty, s\<lparr>ki_error := ki_error s + (softSetRPM s - r) * d\<rparr>) \<and>
          uint duty = (if output < 0 then 5 else if PERIOD < output then PERIOD else output) \<and>
          0 \<le> uint duty \<and> uint duty \<le> PERIOD"
  using assms
  by (auto simp add: PIDController_def Let_def PERIOD_def uint_word_of_int take_bit_int_eq_self)

lemma pidFast_law:
  "double_to_int (Kp * (softSetRPM pidFast - 100)
      + Ki * (ki_error pidFast + (softSetRPM pidFast - 100) * 10)
      + Kd * ((softSetRPM pidFast - 100 - prev_error pidFast) / 10)) = Some 2267"
  by (simp add: pidFast_def powerUp_def Kp_def Ki_def Kd_def double_to_int_def c_trunc_def)

lemma pidAtSetpoint_law:
  "double_to_int (Kp * (softSetRPM pidAtSetpoint - 1000)
      + Ki * (ki_error pidAtSetpoint + (softSetRPM pidAtSetpoint - 1000) * 10)
      + Kd * ((softSetRPM pidAtSetpoint - 1000 - prev_error pidAtSetpoint) / 10)) = Some (- 625)"
  by (simp add: pidAtSetpoint_def powerUp_def Kp_def Ki_def Kd_def double_to_int_def c_trunc_def)

theorem PID_output_range_witness:
  "map_option fst (PIDController pidFast (Fin 100) (Fin 10)) = Some 100 \<and>
   map_option fst (PIDController pidAtSetpoint (Fin 1000) (Fin 10)) = Some 5"
proof -
  have a: "softSetRPM pidFast \<noteq> 0" "softSetRPM pidAtSetpoint \<noteq> 0"
    by (simp_all add: pidFast_def pidAtSetpoint_def powerUp_def)
  from PID_output_range [OF a(1) _ _ pidFast_law]
    PID_output_range [OF a(2) _ _ pidAtSetpoint_law]
  show ?thesis
    by (auto simp add: PERIOD_def word_uint_eq_iff)
qed

subsection \<open>RPM estimate\<close>

lemma unsigned_real_nonneg: "0 \<le> (unsigned (w :: 'a::len word) :: real)"
proof -
  have "(unsigned w :: real) = real (unat w)" by simp
  then show ?thesis by (simp only: of_nat_0_le_iff)
qed

lemma RPMCalculate_nonneg:
  assumes "dt \<noteq> 0"
  shows "\<exists>r. RPMCalculate rate s dt = Fin r \<and> 0 \<le> r"
proof -
  from assms have ne: "(unsigned dt :: real) \<noteq> 0" by (simp add: unsigned_eq_0_iff)
  have "0 \<le> (unsigned (hallEffect_Count s) :: real) / 12 * 60 *
          ((unsigned (pdMS_TO_TICKS rate 1000) :: real) / unsigned dt)"
    by (intro mult_nonneg_nonneg divide_nonneg_nonneg unsigned_real_nonneg) simp_all
  with ne show ?thesis by (simp add: RPMCalculate_def fdiv_def)
qed

text \<open>
  C7, as the claim states it, fails: \<^verbatim>\<open>RPMCalculate\<close> has no test on \<open>dt\<close>.
  With 12 counted transitions and \<open>dt = 0\<close> the division by zero is carried out and
  the result is an infinity.
\<close>

theorem RPMCalculate_zero_counterexample:
  "RPMCalculate 1000 speedSameTickCounted 0 = PInf"
  by (simp add: speedSameTickCounted_def powerUp_def RPMCalculate_def pdMS_TO_TICKS_def fdiv_def)

text \<open>
  C7, amended. \<^verbatim>\<open>RPMCalculate\<close> does not guard the elapsed tick count. For
  \<open>dt = 0\<close> it carries out the division by zero and returns a non-finite value: NaN
  when no transition was counted (or the tick rate is zero), an infinity otherwise. For
  every non-zero \<open>dt\<close> the result is finite and not negative.
\<close>

theorem RPMCalculate_cases:
  "(dt \<noteq> 0 \<longrightarrow>
      isFinite (RPMCalculate rate s dt) \<and> \<not> d_less (RPMCalculate rate s dt) 0) \<and>
   (dt = 0 \<longrightarrow>
      \<not> isFinite (RPMCalculate rate s dt) \<and>
      RPMCalculate rate s dt =
        (if hallEffect_Count s = 0 \<or> pdMS_TO_TICKS rate 1000 = 0 then NaN else PInf))"
proof (intro conjI impI)
  assume "dt \<noteq> 0"
  from RPMCalculate_nonneg [OF this, of rate s]
  obtain r where r: "RPMCalculate rate s dt = Fin r" "0 \<le> r" by blast
  then show "isFinite (RPMCalculate rate s dt)" by simp
  from r show "\<not> d_less (RPMCalculate rate s dt) 0" by simp
next
  assume z: "dt = 0"
  then show v: "RPMCalculate rate s dt =
        (if hallEffect_Count s = 0 \<or> pdMS_TO_TICKS rate 1000 = 0 then NaN else PInf)"
    by (simp add: RPMCalculate_def fdiv_def unsigned_eq_0_iff unsigned_real_pos)
  show "\<not> isFinite (RPMCalculate rate s dt)" unfolding v by simp
qed

theorem RPMCalculate_cases_witness:
  "isFinite (RPMCalculate 1000 speedSameTickCounted 1000) \<and>
   \<not> d_less (RPMCalculate 1000 speedSameTickCounted 1000) 0 \<and>
   RPMCalculate 1000 powerUp 0 = NaN"
  using RPMCalculate_cases [of 1000 1000 speedSameTickCounted]
    RPMCalculate_cases [of 0 1000 powerUp]
  by (simp add: powerUp_def)

subsection \<open>Invalid input of the PID controller\<close>







subsection \<open>Commutation\<close>

text \<open>
  C4. While the motor is enabled, one call of \<^verbatim>\<open>hallEffectDecode\<close> issues exactly
  one \<^verbatim>\<open>updateMotor\<close> call, after the \<^verbatim>\<open>enableMotor\<close> call made on the first
  call since the motor was enabled: Hall states 0, 1 and 5 drive the first phase,
  states 2 and 3 the second, every other state (4, 6, 7 and the values a
  \<^verbatim>\<open>uint8_t\<close> has beyond 7) the third. The Hall state itself is not changed.
\<close>

theorem hallEffectDecode_phase:
  "motorState s \<Longrightarrow>
   motorlib (hallEffectDecode s) =
     motorlib s @ (if flipMotorState s then [] else [EnableMotor]) @
       [UpdateMotor (hallEffectState s \<in> {0, 1, 5}) (hallEffectState s \<in> {2, 3})
          (hallEffectState s \<notin> {0, 1, 2, 3, 5})] \<and>
   hallEffectState (hallEffectDecode s) = hallEffectState s"
  by (simp add: hallEffectDecode_def updateMotor_def)

theorem hallEffectDecode_phase_witness:
  "motorlib (hallEffectDecode hallEnabled) = [EnableMotor, UpdateMotor True False False] \<and>
   motorlib (hallEffectDecode (hallEnabled\<lparr>hallEffectState := 3, flipMotorState := True\<rparr>))
     = [UpdateMotor False True False] \<and>
   motorlib (hallEffectDecode (hallEnabled\<lparr>hallEffectState := 6, flipMotorState := True\<rparr>))
     = [UpdateMotor False False True]"
  using hallEffectDecode_phase [of hallEnabled]
    hallEffectDecode_phase [of "hallEnabled\<lparr>hallEffectState := 3, flipMotorState := True\<rparr>"]
    hallEffectDecode_phase [of "hallEnabled\<lparr>hallEffectState := 6, flipMotorState := True\<rparr>"]
  by (simp add: hallEnabled_def powerUp_def)

subsection \<open>Soft ramp\<close>








text \<open>
  C6. Under E-stop the handler writes 0 to the shared target and uses \<open>esteps\<close>, but
  this tick still compares and steps against the target it read at entry. With E-stop
  asserted, the motor running at \<open>softSetRPM = 500\<close> and an externally written target
  of 1000, the tick raises \<open>softSetRPM\<close> to 510.
\<close>

theorem estop_tick_uses_stale_target:
  "estop rampEStop \<and> esteps rampEStop = 10 \<and> softSetRPM rampEStop = 500 \<and>
   raw (values (rpmData rampEStop)) = 1000 \<and>
   softSetRPM (xTimer1AHandler rampEStop) = 510 \<and>
   raw (values (rpmData (xTimer1AHandler rampEStop))) = 0"
  by (simp add: rampEStop_def rampRunning_def xTimer1AHandler_def setupTimers_def powerUp_def
      zeroShared_def)

subsection \<open>ADC ring buffer\<close>

lemma dist40:
  fixes t h :: nat
  assumes "t < 40" "h < 40"
  shows "(h + 40 - t) mod 40 = (if t \<le> h then h - t else h + 40 - t)"
proof (cases "t \<le> h")
  case True
  then have "h + 40 - t = (h - t) + 40" by simp
  then have "(h + 40 - t) mod 40 = (h - t) mod 40" by (simp only: mod_add_self2)
  with True assms show ?thesis by simp
next
  case False
  with assms show ?thesis by simp
qed

lemma succ40: "(t::nat) < 40 \<Longrightarrow> Suc t mod 40 = (if t = 39 then 0 else Suc t)"
  by simp

lemma wrap40:
  fixes t k :: nat
  assumes "t < 40" "k < 40"
  shows "(t + k) mod 40 = (if t + k < 40 then t + k else t + k - 40)"
proof (cases "t + k < 40")
  case True
  then show ?thesis by simp
next
  case False
  then have "(t + k) mod 40 = (t + k - 40) mod 40" by (simp add: le_mod_geq)
  with False assms show ?thesis by simp
qed

lemma length_ring: "length (ring t h buf) = (h + 40 - t) mod 40"
  by (simp add: ring_def MAXBUFFER_def)

lemma dist40_pop:
  fixes t h :: nat
  assumes "t < 40" "h < 40" "t \<noteq> h"
  shows "(h + 40 - t) mod 40 = Suc ((h + 40 - Suc t mod 40) mod 40)"
proof -
  define t' where "t' = Suc t mod 40"
  have t'lt: "t' < 40" by (simp add: t'_def)
  have t'eq: "t' = (if t = 39 then 0 else Suc t)"
    unfolding t'_def by (rule succ40 [OF assms(1)])
  have "(h + 40 - t) mod 40 = Suc ((h + 40 - t') mod 40)"
    unfolding dist40 [OF assms(1,2)] dist40 [OF t'lt assms(2)]
    using assms t'eq by (auto split: if_splits)
  then show ?thesis by (simp only: t'_def)
qed

lemma dist40_push:
  fixes t h :: nat
  assumes "t < 40" "h < 40" "Suc h mod 40 \<noteq> t"
  shows "(Suc h mod 40 + 40 - t) mod 40 = Suc ((h + 40 - t) mod 40)"
proof -
  define h' where "h' = Suc h mod 40"
  have h'lt: "h' < 40" by (simp add: h'_def)
  have h'eq: "h' = (if h = 39 then 0 else Suc h)"
    unfolding h'_def by (rule succ40 [OF assms(2)])
  have ne: "h' \<noteq> t" unfolding h'_def by (rule assms(3))
  have "(h' + 40 - t) mod 40 = Suc ((h + 40 - t) mod 40)"
    unfolding dist40 [OF assms(1,2)] dist40 [OF assms(1) h'lt]
    using assms(1,2) ne h'eq by (auto split: if_splits)
  then show ?thesis by (simp only: h'_def)
qed

lemma ring_index_last:
  fixes t h :: nat
  assumes "t < 40" "h < 40"
  shows "(t + (h + 40 - t) mod 40) mod 40 = h"
proof -
  define n where "n = (h + 40 - t) mod 40"
  have nlt: "n < 40" by (simp add: n_def)
  have neq: "n = (if t \<le> h then h - t else h + 40 - t)"
    unfolding n_def by (rule dist40 [OF assms])
  have "(t + n) mod 40 = h"
    unfolding wrap40 [OF assms(1) nlt] using assms neq by (auto split: if_splits)
  then show ?thesis by (simp only: n_def)
qed

lemma ring_index_other:
  fixes t h k :: nat
  assumes "t < 40" "h < 40" "k < (h + 40 - t) mod 40"
  shows "(t + k) mod 40 \<noteq> h"
proof -
  define n where "n = (h + 40 - t) mod 40"
  have nlt: "n < 40" by (simp add: n_def)
  have neq: "n = (if t \<le> h then h - t else h + 40 - t)"
    unfolding n_def by (rule dist40 [OF assms(1,2)])
  from assms(3) have kn: "k < n" by (simp only: n_def)
  with nlt have k: "k < 40" by linarith
  show ?thesis
    unfolding wrap40 [OF assms(1) k] using assms(1,2) neq kn by (auto split: if_splits)
qed

lemma ring_pop:
  assumes "t < 40" "h < 40" "t \<noteq> h"
  shows "ring t h buf = buf ! t # ring (Suc t mod 40) h buf"
proof -
  let ?n = "(h + 40 - t) mod 40"
  let ?m = "(h + 40 - Suc t mod 40) mod 40"
  have n: "?n = Suc ?m" by (rule dist40_pop [OF assms])
  have "[0..<?n] = 0 # map Suc [0..<?m]"
    unfolding n by (simp only: upt_conv_Cons zero_less_Suc map_Suc_upt)
  moreover have "\<And>k. (Suc t mod 40 + k) mod 40 = Suc (t + k) mod 40"
    by (simp add: mod_add_left_eq)
  ultimately show ?thesis
    using assms(1) by (simp add: ring_def MAXBUFFER_def comp_def)
qed

lemma ring_push:
  assumes "t < 40" "h < 40" "length buf = 40" "Suc h mod 40 \<noteq> t"
  shows "ring t (Suc h mod 40) (buf[h := x]) = ring t h buf @ [x]"
proof -
  let ?n = "(h + 40 - t) mod 40"
  have n: "(Suc h mod 40 + 40 - t) mod 40 = Suc ?n"
    by (rule dist40_push [OF assms(1,2,4)])
  have last: "(t + ?n) mod 40 = h" by (rule ring_index_last [OF assms(1,2)])
  have eq: "map (\<lambda>k. buf[h := x] ! ((t + k) mod 40)) [0..<?n]
              = map (\<lambda>k. buf ! ((t + k) mod 40)) [0..<?n]"
    by (rule map_cong) (auto simp add: ring_index_other [OF assms(1,2), THEN not_sym])
  have "map (\<lambda>k. buf[h := x] ! ((t + k) mod 40)) [0..<Suc ?n]
          = map (\<lambda>k. buf ! ((t + k) mod 40)) [0..<?n] @ [x]"
    using assms(2,3) by (simp only: upt_Suc_append le0 map_append eq last list.map nth_list_update_eq)
  then show ?thesis
    by (simp only: ring_def MAXBUFFER_def n)
qed

lemma unat_index8: "n < 40 \<Longrightarrow> unat (of_nat n :: 8 word) = n"
  by (simp add: unat_of_nat)

lemma length_unread: "length (unread s) = (unat (adcHead s) + 40 - unat (adcTail s)) mod 40"
  by (simp add: unread_def length_ring)

lemma length_unread_le: "length (unread s) \<le> 39"
proof -
  have "(unat (adcHead s) + 40 - unat (adcTail s)) mod 40 < 40" by simp
  then show ?thesis by (simp only: length_unread)
qed

lemma full_iff:
  assumes "adc_inv s"
  shows "(Suc (unat (adcHead s)) mod 40 = unat (adcTail s)) = (length (unread s) = 39)"
proof -
  from assms have h: "unat (adcHead s) < 40" and t: "unat (adcTail s) < 40"
    by (simp_all add: adc_inv_def MAXBUFFER_def)
  show ?thesis
    unfolding length_unread dist40 [OF t h] succ40 [OF h]
    using h t by (auto split: if_splits)
qed

lemma push_step:
  assumes "adc_inv s"
  shows "\<exists>s'. xADC1Sequence0 a b s = Some s' \<and> adc_inv s' \<and>
           unread s' = (if length (unread s) = 39 then tl (unread s) else unread s)
                          @ [\<lparr>ch0 = a, ch4 = b\<rparr>] \<and>
           adcTail s' = (if length (unread s) = 39
                         then of_nat ((unat (adcTail s) + 1) mod 40) else adcTail s) \<and>
           sum_ch0 s' = sum_ch0 s \<and> sum_ch4 s' = sum_ch4 s \<and> sample_count s' = sample_count s"
proof -
  from assms have h: "unat (adcHead s) < 40" and t: "unat (adcTail s) < 40"
    and len: "length (adcBuffer s) = 40"
    by (simp_all add: adc_inv_def MAXBUFFER_def)
  have h1: "Suc (unat (adcHead s)) mod 40 < 40" and t1: "Suc (unat (adcTail s)) mod 40 < 40"
    by simp_all
  show ?thesis
  proof (cases "Suc (unat (adcHead s)) mod 40 = unat (adcTail s)")
    case True
    then have full: "length (unread s) = 39" using full_iff [OF assms] by simp
    from True h t have ne: "unat (adcTail s) \<noteq> unat (adcHead s)"
      unfolding succ40 [OF h] by (auto split: if_splits)
    from True t have ne': "Suc (unat (adcHead s)) mod 40 \<noteq> Suc (unat (adcTail s)) mod 40"
      unfolding succ40 [OF t] by (auto split: if_splits)
    have pop: "ring (unat (adcTail s)) (unat (adcHead s)) (adcBuffer s)
                 = adcBuffer s ! unat (adcTail s)
                 # ring (Suc (unat (adcTail s)) mod 40) (unat (adcHead s)) (adcBuffer s)"
      by (rule ring_pop [OF t h ne])
    have push: "ring (Suc (unat (adcTail s)) mod 40) (Suc (unat (adcHead s)) mod 40)
                  ((adcBuffer s)[unat (adcHead s) := \<lparr>ch0 = a, ch4 = b\<rparr>])
                = ring (Suc (unat (adcTail s)) mod 40) (unat (adcHead s)) (adcBuffer s)
                    @ [\<lparr>ch0 = a, ch4 = b\<rparr>]"
      by (rule ring_push [OF t1 h len ne'])
    from True full h t len show ?thesis
      by (simp add: xADC1Sequence0_def MAXBUFFER_def adc_inv_def unread_def
          unat_index8 [OF h1] unat_index8 [OF t1] push [unfolded True] pop)
  next
    case False
    then have notfull: "length (unread s) \<noteq> 39" using full_iff [OF assms] by simp
    have push: "ring (unat (adcTail s)) (Suc (unat (adcHead s)) mod 40)
                  ((adcBuffer s)[unat (adcHead s) := \<lparr>ch0 = a, ch4 = b\<rparr>])
                = ring (unat (adcTail s)) (unat (adcHead s)) (adcBuffer s) @ [\<lparr>ch0 = a, ch4 = b\<rparr>]"
      by (rule ring_push [OF t h len False])
    from False notfull h t len show ?thesis
      by (simp add: xADC1Sequence0_def MAXBUFFER_def adc_inv_def unread_def
          unat_index8 [OF h1] push)
  qed
qed

lemma pushAll_unread:
  assumes "adc_inv s"
  shows "\<exists>s'. pushAll xs s = Some s' \<and> adc_inv s' \<and>
           unread s' = drop (length (unread s) + length xs - 39) (unread s @ map sampleOf xs) \<and>
           sum_ch0 s' = sum_ch0 s \<and> sum_ch4 s' = sum_ch4 s \<and> sample_count s' = sample_count s"
  using assms
proof (induction xs arbitrary: s)
  case Nil
  then show ?case using length_unread_le [of s] by simp
next
  case (Cons x xs)
  from push_step [OF Cons.prems, of "fst x" "snd x"]
  obtain s1 where s1: "xADC1Sequence0 (fst x) (snd x) s = Some s1" "adc_inv s1"
    "unread s1 = (if length (unread s) = 39 then tl (unread s) else unread s) @ [sampleOf x]"
    "sum_ch0 s1 = sum_ch0 s" "sum_ch4 s1 = sum_ch4 s" "sample_count s1 = sample_count s"
    by (auto simp add: sampleOf_def)
  from Cons.IH [OF s1(2)]
  obtain s' where s': "pushAll xs s1 = Some s'" "adc_inv s'"
    "unread s' = drop (length (unread s1) + length xs - 39) (unread s1 @ map sampleOf xs)"
    "sum_ch0 s' = sum_ch0 s1" "sum_ch4 s' = sum_ch4 s1" "sample_count s' = sample_count s1"
    by blast
  have "drop (length (unread s1) + length xs - 39) (unread s1 @ map sampleOf xs)
        = drop (length (unread s) + length (x # xs) - 39) (unread s @ map sampleOf (x # xs))"
  proof (cases "length (unread s) = 39")
    case True
    then obtain y ys where u: "unread s = y # ys" by (cases "unread s") auto
    with True s1(3) show ?thesis by simp
  next
    case False
    with length_unread_le [of s] have "length (unread s) < 39" by simp
    with False s1(3) show ?thesis by simp
  qed
  with s1 s' show ?case by simp
qed

lemma drainLoop_drained:
  assumes "adc_inv s"
  shows "drainLoop s = Some (drained s)"
  using assms
proof (induction n \<equiv> "length (unread s)" arbitrary: s)
  case 0
  then have h: "unat (adcHead s) < 40" and t: "unat (adcTail s) < 40"
    by (simp_all add: adc_inv_def MAXBUFFER_def)
  from 0 have "(unat (adcHead s) + 40 - unat (adcTail s)) mod 40 = 0"
    by (simp only: length_unread)
  with h t have "unat (adcTail s) = unat (adcHead s)"
    unfolding dist40 [OF t h] by (auto split: if_splits)
  then have eq: "adcTail s = adcHead s" by (simp only: word_unat_eq_iff)
  have "drainLoop s = Some s" by (subst drainLoop.simps) (simp add: eq)
  moreover from 0 eq have "drained s = s" by (simp add: drained_def)
  ultimately show ?case by simp
next
  case (Suc n)
  then have h: "unat (adcHead s) < 40" and t: "unat (adcTail s) < 40"
    and len: "length (adcBuffer s) = 40"
    by (simp_all add: adc_inv_def MAXBUFFER_def)
  from Suc.hyps(2) have "length (unread s) \<noteq> 0" by auto
  then have "(unat (adcHead s) + 40 - unat (adcTail s)) mod 40 \<noteq> 0"
    unfolding length_unread .
  then have ne: "unat (adcTail s) \<noteq> unat (adcHead s)" by auto
  then have wne: "adcTail s \<noteq> adcHead s" by (simp add: word_unat_eq_iff)
  have t1: "Suc (unat (adcTail s)) mod 40 < 40" by simp
  define s1 where "s1 = s\<lparr>adcTail := of_nat (Suc (unat (adcTail s)) mod 40),
      sum_ch0 := sum_ch0 s + real (unat (ucast (ch0 (adcBuffer s ! unat (adcTail s))) :: 16 word)),
      sum_ch4 := sum_ch4 s + real (unat (ucast (ch4 (adcBuffer s ! unat (adcTail s))) :: 16 word)),
      sample_count := sample_count s + 1\<rparr>"
  have step: "drainLoop s = drainLoop s1"
    by (subst drainLoop.simps) (simp add: wne t len s1_def MAXBUFFER_def Let_def)
  have pop: "unread s = adcBuffer s ! unat (adcTail s) # unread s1"
    unfolding unread_def s1_def using ring_pop [OF t h ne, of "adcBuffer s"]
    by (simp add: unat_index8 [OF t1])
  have inv1: "adc_inv s1"
    using h len by (simp add: adc_inv_def s1_def MAXBUFFER_def unat_index8 [OF t1])
  from Suc.hyps(2) pop have n: "n = length (unread s1)" by simp
  have "drainLoop s1 = Some (drained s1)" by (rule Suc.hyps(1) [OF n inv1])
  moreover have "drained s1 = drained s"
    by (simp add: drained_def pop) (simp add: s1_def add.assoc)
  ultimately show ?case using step by simp
qed

lemma drainLoop_empty: "adcTail s = adcHead s \<Longrightarrow> drainLoop s = Some s"
  by (subst drainLoop.simps) simp

lemma drained_empty: "adcTail s = adcHead s \<Longrightarrow> drained s = s"
  by (simp add: drained_def unread_def ring_def)

text \<open>
  With the producer and the consumer loop run one after the other, the buffer is a queue
  of at most 39 samples: a push appends the new sample and, exactly when 39 samples were
  unread, drops the oldest by advancing the tail; the consumer loop returns, having read
  exactly the unread samples, every read inside the array.
\<close>

lemma adc_ring_atomic:
  assumes "adc_inv s"
  shows "(\<exists>s1. xADC1Sequence0 a b s = Some s1 \<and> adc_inv s1 \<and>
            unread s1 = (if length (unread s) = MAXBUFFER - 1 then tl (unread s) else unread s)
                           @ [\<lparr>ch0 = a, ch4 = b\<rparr>] \<and>
            adcTail s1 = (if length (unread s) = MAXBUFFER - 1
                          then of_nat ((unat (adcTail s) + 1) mod MAXBUFFER) else adcTail s)) \<and>
         (\<exists>s'. pushAll xs s = Some s' \<and> adc_inv s' \<and>
            unread s' = drop (length (unread s) + length xs - (MAXBUFFER - 1))
                          (unread s @ map sampleOf xs) \<and>
            length (unread s') \<le> MAXBUFFER - 1 \<and>
            (xs \<noteq> [] \<longrightarrow> last (unread s') = sampleOf (last xs)) \<and>
            drainLoop s' = Some (drained s') \<and> adc_inv (drained s') \<and>
            unread (drained s') = [])"
proof -
  from push_step [OF assms, of a b]
  have one: "\<exists>s1. xADC1Sequence0 a b s = Some s1 \<and> adc_inv s1 \<and>
            unread s1 = (if length (unread s) = MAXBUFFER - 1 then tl (unread s) else unread s)
                           @ [\<lparr>ch0 = a, ch4 = b\<rparr>] \<and>
            adcTail s1 = (if length (unread s) = MAXBUFFER - 1
                          then of_nat ((unat (adcTail s) + 1) mod MAXBUFFER) else adcTail s)"
    by (auto simp add: MAXBUFFER_def)
  from pushAll_unread [OF assms, of xs]
  obtain s' where s': "pushAll xs s = Some s'" "adc_inv s'"
    "unread s' = drop (length (unread s) + length xs - 39) (unread s @ map sampleOf xs)"
    by blast
  have newest: "last (unread s') = sampleOf (last xs)" if "xs \<noteq> []"
  proof -
    from that length_unread_le [of s]
    have "length (unread s) + length xs - 39 < length (unread s @ map sampleOf xs)"
      by (cases xs) auto
    then have "last (unread s') = last (unread s @ map sampleOf xs)"
      unfolding s'(3) by (rule last_drop)
    with that show ?thesis by (simp add: last_map)
  qed
  have inv_d: "adc_inv (drained s')"
    using s'(2) by (simp add: adc_inv_def drained_def)
  have "unread (drained s') = []"
    by (simp add: unread_def drained_def ring_def)
  with s' newest inv_d length_unread_le [of s'] drainLoop_drained [OF s'(2)] one
  show ?thesis by (simp add: MAXBUFFER_def)
qed

lemma drainLoop_consumer_iter:
  "adcTail s \<noteq> adcHead s \<Longrightarrow> drainLoop s = Option.bind (consumer_iter None s) drainLoop"
  by (subst drainLoop.simps) (simp add: consumer_iter_def Let_def)

lemma inv_ringFullMarked: "adc_inv ringFullMarked"
  by (simp add: adc_inv_def ringFullMarked_def powerUp_def MAXBUFFER_def)

text \<open>
  C9. The consumer reads \<open>adcTail\<close> anew for each channel and for its update, with
  interrupts enabled. On the full marked buffer, the oldest unread samples are
  \<open>(100, 200)\<close> and \<open>(101, 201)\<close>. Not interrupted, one run of the loop body
  adds 100 and 200 to the sums and leaves the tail at 1. With the ADC interrupt served
  between the two channel reads, the push advances the tail, and the body adds 100 and
  201, a pair that no sample holds, and leaves the tail at 2: the sample in slot 1 is
  never read as a whole.
\<close>

theorem adc_consumer_torn_read:
  "adc_inv ringFullMarked \<and> length (unread ringFullMarked) = 39 \<and>
   unread ringFullMarked ! 0 = \<lparr>ch0 = 100, ch4 = 200\<rparr> \<and>
   unread ringFullMarked ! 1 = \<lparr>ch0 = 101, ch4 = 201\<rparr> \<and>
   map_option (\<lambda>s'. (sum_ch0 s', sum_ch4 s', sample_count s', adcTail s'))
     (consumer_iter None ringFullMarked) = Some (100, 200, 1, 1) \<and>
   map_option (\<lambda>s'. (sum_ch0 s', sum_ch4 s', sample_count s', adcTail s'))
     (consumer_iter (Some (7, 9)) ringFullMarked) = Some (100, 201, 1, 2)"
  by (simp add: inv_ringFullMarked length_unread)
     (simp add: unread_def ring_def consumer_iter_def xADC1Sequence0_def MAXBUFFER_def
        ringFullMarked_def powerUp_def Let_def)

subsection \<open>Current and power monitor\<close>

lemma estop_drained: "estop (drained s) = estop s" "settlingFlag (drained s) = settlingFlag s"
  "maxCurrentLimit (drained s) = maxCurrentLimit s" "adcBuffer (drained s) = adcBuffer s"
  by (simp_all add: drained_def)

lemma estop_frame:
  "estop (xTimer1AHandler s) = estop s" "estop (hallEffectDecode s) = estop s"
  by (simp_all add: xTimer1AHandler_def hallEffectDecode_def updateMotor_def Let_def)

lemma estop_frame_adc: "xADC1Sequence0 a b s = Some s' \<Longrightarrow> estop s' = estop s"
  by (auto simp add: xADC1Sequence0_def Let_def split: if_splits)

lemma estop_frame_speed:
  "speedControllerTask_iter rate tick s = Some (rpm, out, s') \<Longrightarrow> estop s' = estop s"
  by (auto simp add: speedControllerTask_iter_def PIDController_def setDuty_def Let_def
      split: if_splits option.splits double.splits prod.splits)

lemma powerTask_compute_cases:
  assumes "0 < length (adcBuffer s)" and "sample_count s \<noteq> 0"
    and "measuredTotal_mA s = Some tot"
  shows "\<exists>s'. powerTask_compute s = Some s' \<and>
           (estop s \<longrightarrow> estop s') \<and>
           (settlingFlag s \<and> raw (values (maxCurrentLimit s)) < tot \<longrightarrow> estop s') \<and>
           (\<not> settlingFlag s \<and> raw (values (maxCurrentLimit s)) < tot \<longrightarrow>
              estop s' = estop s \<and> \<not> settlingFlag s') \<and>
           (\<not> raw (values (maxCurrentLimit s)) < tot \<longrightarrow>
              settlingFlag s' \<and> estop s' = estop s)"
  using assms
  by (auto simp add: powerTask_compute_def measuredTotal_mA_def Let_def word_gt_0 getter_def
      eStopSetter_def powerTask_publish_def setterVal_def setter_def xQueueSend_def
      split: option.splits prod.splits)

lemma powerTask_compute_skip:
  assumes "0 < length (adcBuffer s)" and "sample_count s \<noteq> 0"
    and "measuredTotal_mA s = Some tot" and "\<not> settlingFlag s"
    and "raw (values (maxCurrentLimit s)) < tot"
  shows "powerTask_compute s
     = Some (s\<lparr>filtered_ch0 := alpha * (sum_ch0 s / real (unat (sample_count s)))
                                 + (1 - alpha) * filtered_ch0 s,
               filtered_ch4 := alpha * (sum_ch4 s / real (unat (sample_count s)))
                                 + (1 - alpha) * filtered_ch4 s\<rparr>)"
  using assms
  by (auto simp add: powerTask_compute_def measuredTotal_mA_def Let_def word_gt_0 getter_def
      split: option.splits prod.splits)

lemma inv_monitor: "adc_inv monitorOverLimit"
  by (simp add: adc_inv_def monitorOverLimit_def powerTask_start_def powerUp_def MAXBUFFER_def)

lemma unread_monitor: "unread monitorOverLimit = [\<lparr>ch0 = 0, ch4 = 0\<rparr>]"
  by (simp add: unread_def ring_def monitorOverLimit_def powerTask_start_def powerUp_def MAXBUFFER_def)

lemma total_monitor: "measuredTotal_mA (drained monitorOverLimit) = Some (330000 / 7)"
  by (simp add: measuredTotal_mA_def drained_def unread_monitor)
     (simp add: monitorOverLimit_def powerTask_start_def powerUp_def alpha_def
        double_to_uint16_def c_trunc_def readCurrent_def)

lemma monitor_fields:
  "settlingFlag monitorOverLimit = False" "estop monitorOverLimit = False"
  "raw (values (maxCurrentLimit monitorOverLimit)) = 833"
  "sample_count monitorOverLimit = 0"
  by (simp_all add: monitorOverLimit_def powerTask_start_def powerUp_def setterVal_def
      zeroShared_def)

lemma count_monitor: "sample_count (drained monitorOverLimit) \<noteq> 0"
  by (simp add: drained_def unread_monitor monitor_fields)

lemma skipped_fields:
  "settlingFlag monitorSkipped = False" "estop monitorSkipped = False"
  "raw (values (maxCurrentLimit monitorSkipped)) = 833"
  "sample_count monitorSkipped = 1" "sum_ch0 monitorSkipped = 0" "sum_ch4 monitorSkipped = 0"
  "filtered_ch0 monitorSkipped = 0" "filtered_ch4 monitorSkipped = 0"
  "adcTail monitorSkipped = adcHead monitorSkipped" "length (adcBuffer monitorSkipped) = 40"
  by (simp_all add: monitorSkipped_def monitorOverLimit_def powerTask_start_def powerUp_def
      setterVal_def zeroShared_def)

lemma total_skipped: "measuredTotal_mA monitorSkipped = Some (330000 / 7)"
  by (simp add: measuredTotal_mA_def skipped_fields alpha_def double_to_uint16_def c_trunc_def
      readCurrent_def)

lemma compute_skipped: "powerTask_compute monitorSkipped = Some monitorSkipped"
proof -
  have "powerTask_compute monitorSkipped
     = Some (monitorSkipped
         \<lparr>filtered_ch0 := alpha * (sum_ch0 monitorSkipped
               / real (unat (sample_count monitorSkipped)))
             + (1 - alpha) * filtered_ch0 monitorSkipped,
          filtered_ch4 := alpha * (sum_ch4 monitorSkipped
               / real (unat (sample_count monitorSkipped)))
             + (1 - alpha) * filtered_ch4 monitorSkipped\<rparr>)"
    by (rule powerTask_compute_skip [OF _ _ total_skipped]) (simp_all add: skipped_fields)
  also have "\<dots> = Some (monitorSkipped\<lparr>filtered_ch0 := filtered_ch0 monitorSkipped,
       filtered_ch4 := filtered_ch4 monitorSkipped\<rparr>)"
    by (simp add: skipped_fields)
  also have "\<dots> = Some monitorSkipped" by simp
  finally show ?thesis .
qed

lemma drained_monitor: "drained monitorOverLimit = monitorSkipped"
  by (simp add: drained_def unread_monitor monitorSkipped_def)
     (simp add: monitorOverLimit_def powerTask_start_def powerUp_def)

text \<open>
  C1, as the claim states it, fails. Until the monitor has seen one total that is not
  above the limit (\<open>settlingFlag\<close> is still false), a total above the limit makes the
  loop \<^verbatim>\<open>continue\<close> before the call of \<^verbatim>\<open>eStopSetter\<close>. Right after the
  prologue, with the limit at 833 mA and a sample that measures about 47143 mA, the
  iteration leaves E-stop false; the state it reaches still measures the same total and is
  a fixed point of the iteration, so E-stop stays false however long the current lasts.
\<close>

theorem overcurrent_settling_counterexample:
  "settlingFlag monitorOverLimit = False \<and>
   raw (values (maxCurrentLimit monitorOverLimit)) = 833 \<and>
   measuredTotal_mA (drained monitorOverLimit) = Some (330000 / 7) \<and>
   powerTask_iter monitorOverLimit = Some monitorSkipped \<and>
   measuredTotal_mA (drained monitorSkipped) = Some (330000 / 7) \<and>
   powerTask_iter monitorSkipped = Some monitorSkipped \<and>
   estop monitorSkipped = False"
  by (simp add: monitor_fields skipped_fields total_monitor total_skipped powerTask_iter_def
      drainLoop_drained [OF inv_monitor] drained_monitor compute_skipped drainLoop_empty
      drained_empty)

lemma frame_drained:
  "estop (drained s) = estop s" "settlingFlag (drained s) = settlingFlag s"
  "maxCurrentLimit (drained s) = maxCurrentLimit s" "adcBuffer (drained s) = adcBuffer s"
  "adcHead (drained s) = adcHead s" "adcTail (drained s) = adcHead s"
  by (simp_all add: drained_def)

lemma powerTask_compute_frame:
  assumes "0 < length (adcBuffer s)" and "sample_count s \<noteq> 0"
    and "measuredTotal_mA s = Some tot"
  shows "\<exists>s'. powerTask_compute s = Some s' \<and>
           adcBuffer s' = adcBuffer s \<and> adcHead s' = adcHead s \<and> adcTail s' = adcTail s \<and>
           (settlingFlag s \<longrightarrow> settlingFlag s') \<and>
           raw (values (maxCurrentLimit s')) = raw (values (maxCurrentLimit s))"
  using assms
  by (auto simp add: powerTask_compute_def measuredTotal_mA_def Let_def word_gt_0 getter_def
      eStopSetter_def powerTask_publish_def setterVal_def setter_def xQueueSend_def
      split: option.splits prod.splits)

lemma frame_adc:
  assumes "xADC1Sequence0 a b s = Some s1"
  shows "estop s1 = estop s \<and> settlingFlag s1 = settlingFlag s \<and>
         maxCurrentLimit s1 = maxCurrentLimit s"
  using assms by (auto simp add: xADC1Sequence0_def Let_def split: if_splits)

text \<open>
  C1, amended. From a state with the buffer indices inside the array, one iteration of the
  monitor returns. With no sample to process it changes neither E-stop, nor the settling
  flag, nor the limit. With at least one sample and the total \<open>tot\<close> (in mA) it
  computes: once the monitor has settled, a total above the raw current limit sets E-stop
  in that iteration; while it has not settled, a total above the limit is skipped, E-stop
  and the settling flag staying as they were; a total that is not above the limit marks
  the monitor settled and leaves E-stop as it was. In every case a settled monitor stays
  settled, an asserted E-stop stays asserted and the raw limit is not changed. The ADC
  interrupt changes none of the three, the ramp tick and the commutation decode do not
  change E-stop; an \<^verbatim>\<open>eStopSetter\<close> call with false clears it.
\<close>

theorem overcurrent_trips_once_settled:
  assumes "adc_inv s"
  shows "(sample_count (drained s) = 0 \<longrightarrow>
            powerTask_iter s = Some (drained s) \<and> adc_inv (drained s) \<and>
            estop (drained s) = estop s \<and> settlingFlag (drained s) = settlingFlag s \<and>
            maxCurrentLimit (drained s) = maxCurrentLimit s) \<and>
         (sample_count (drained s) \<noteq> 0 \<and> measuredTotal_mA (drained s) = Some tot \<longrightarrow>
            (\<exists>s'. powerTask_iter s = Some s' \<and> adc_inv s' \<and>
               (estop s \<longrightarrow> estop s') \<and>
               (settlingFlag s \<longrightarrow> settlingFlag s') \<and>
               raw (values (maxCurrentLimit s')) = raw (values (maxCurrentLimit s)) \<and>
               (settlingFlag s \<and> raw (values (maxCurrentLimit s)) < tot \<longrightarrow> estop s') \<and>
               (\<not> settlingFlag s \<and> raw (values (maxCurrentLimit s)) < tot \<longrightarrow>
                  estop s' = estop s \<and> \<not> settlingFlag s') \<and>
               (\<not> raw (values (maxCurrentLimit s)) < tot \<longrightarrow>
                  settlingFlag s' \<and> estop s' = estop s))) \<and>
         (\<exists>s1. xADC1Sequence0 a b s = Some s1 \<and> adc_inv s1 \<and> estop s1 = estop s \<and>
            settlingFlag s1 = settlingFlag s \<and> maxCurrentLimit s1 = maxCurrentLimit s) \<and>
         estop (xTimer1AHandler s) = estop s \<and> estop (hallEffectDecode s) = estop s \<and>
         \<not> estop (snd (eStopSetter True False s))"
proof -
  have invd: "adc_inv (drained s)"
    using assms by (simp add: adc_inv_def frame_drained)
  have len: "0 < length (adcBuffer (drained s))"
    using assms by (simp add: adc_inv_def MAXBUFFER_def frame_drained)
  have nosample: "powerTask_iter s = Some (drained s)" if "sample_count (drained s) = 0"
    using that by (simp add: powerTask_iter_def drainLoop_drained [OF assms] powerTask_compute_def)
  have sample: "\<exists>s'. powerTask_iter s = Some s' \<and> adc_inv s' \<and>
               (estop s \<longrightarrow> estop s') \<and>
               (settlingFlag s \<longrightarrow> settlingFlag s') \<and>
               raw (values (maxCurrentLimit s')) = raw (values (maxCurrentLimit s)) \<and>
               (settlingFlag s \<and> raw (values (maxCurrentLimit s)) < tot \<longrightarrow> estop s') \<and>
               (\<not> settlingFlag s \<and> raw (values (maxCurrentLimit s)) < tot \<longrightarrow>
                  estop s' = estop s \<and> \<not> settlingFlag s') \<and>
               (\<not> raw (values (maxCurrentLimit s)) < tot \<longrightarrow>
                  settlingFlag s' \<and> estop s' = estop s)"
    if c: "sample_count (drained s) \<noteq> 0" and m: "measuredTotal_mA (drained s) = Some tot"
  proof -
    from powerTask_compute_cases [OF len c m] obtain s' where
      s': "powerTask_compute (drained s) = Some s'"
      "estop (drained s) \<longrightarrow> estop s'"
      "settlingFlag (drained s) \<and> raw (values (maxCurrentLimit (drained s))) < tot \<longrightarrow> estop s'"
      "\<not> settlingFlag (drained s) \<and> raw (values (maxCurrentLimit (drained s))) < tot \<longrightarrow>
          estop s' = estop (drained s) \<and> \<not> settlingFlag s'"
      "\<not> raw (values (maxCurrentLimit (drained s))) < tot \<longrightarrow>
          settlingFlag s' \<and> estop s' = estop (drained s)"
      by blast
    from powerTask_compute_frame [OF len c m] s'(1) have
      fr: "adcBuffer s' = adcBuffer (drained s)" "adcHead s' = adcHead (drained s)"
      "adcTail s' = adcTail (drained s)" "settlingFlag (drained s) \<longrightarrow> settlingFlag s'"
      "raw (values (maxCurrentLimit s')) = raw (values (maxCurrentLimit (drained s)))"
      by auto
    from invd fr(1-3) have inv': "adc_inv s'" by (simp add: adc_inv_def)
    have it: "powerTask_iter s = Some s'"
      by (simp add: powerTask_iter_def drainLoop_drained [OF assms] s'(1))
    from it inv' s'(2-5) fr(4,5) show ?thesis
      by (simp add: frame_drained)
  qed
  from push_step [OF assms, of a b] obtain s1 where
    s1: "xADC1Sequence0 a b s = Some s1" "adc_inv s1" by blast
  from frame_adc [OF s1(1)] s1 have
    isr: "\<exists>s1. xADC1Sequence0 a b s = Some s1 \<and> adc_inv s1 \<and> estop s1 = estop s \<and>
            settlingFlag s1 = settlingFlag s \<and> maxCurrentLimit s1 = maxCurrentLimit s"
    by simp
  from nosample sample invd isr show ?thesis
    by (simp add: frame_drained estop_frame eStopSetter_def)
qed

lemma inv_settled: "adc_inv monitorSettled"
  using inv_monitor by (simp add: adc_inv_def monitorSettled_def)

lemma total_settled: "measuredTotal_mA (drained monitorSettled) = Some (330000 / 7)"
  using total_monitor
  by (simp add: measuredTotal_mA_def drained_def unread_def monitorSettled_def)

lemma count_settled: "sample_count (drained monitorSettled) \<noteq> 0"
  using count_monitor
  by (simp add: drained_def unread_def monitorSettled_def)

lemma inv_start: "adc_inv (powerTask_start powerUp)"
  by (simp add: adc_inv_def powerTask_start_def powerUp_def MAXBUFFER_def)

lemma count_start: "sample_count (drained (powerTask_start powerUp)) = 0"
  by (simp add: drained_def unread_def ring_def powerTask_start_def powerUp_def MAXBUFFER_def)

theorem overcurrent_trips_once_settled_witness:
  "(\<exists>s'. powerTask_iter monitorSettled = Some s' \<and> estop s' \<and> settlingFlag s' \<and>
      raw (values (maxCurrentLimit s')) = 833) \<and>
   powerTask_iter (powerTask_start powerUp) = Some (drained (powerTask_start powerUp))"
proof -
  from overcurrent_trips_once_settled [OF inv_settled, where tot = "330000 / 7"]
    count_settled total_settled monitor_fields(3)
  have a: "\<exists>s'. powerTask_iter monitorSettled = Some s' \<and> estop s' \<and> settlingFlag s' \<and>
      raw (values (maxCurrentLimit s')) = 833"
    by (auto simp add: monitorSettled_def)
  from overcurrent_trips_once_settled [OF inv_start] count_start
  have "powerTask_iter (powerTask_start powerUp) = Some (drained (powerTask_start powerUp))"
    by simp
  with a show ?thesis by simp
qed

end
